theory Spec2Isabelle
  imports Main
begin

section \<open>Data model of \<^verbatim>\<open>src/index.jsx\<close>\<close>

text \<open>
  The six collection names of \<^verbatim>\<open>useData\<close> (the memoised array \<^verbatim>\<open>collections\<close>),
  in the order of the source.
\<close>

datatype coll = Tickets | Requests | Notes | Projects | Profiles | Quotas

definition collections :: "coll list" where
  "collections = [Tickets, Requests, Notes, Projects, Profiles, Quotas]"

fun colName :: "coll \<Rightarrow> string" where
  "colName Tickets = ''tickets''"
| "colName Requests = ''requests''"
| "colName Notes = ''notes''"
| "colName Projects = ''projects''"
| "colName Profiles = ''profiles''"
| "colName Quotas = ''quotas''"

text \<open>
  A field value of a stored document. Strings are kept apart because the document
  identifier is one; \<open>ServerTimestamp\<close> is the sentinel returned by
  \<^verbatim>\<open>serverTimestamp()\<close>; every other value of the store is opaque.
\<close>

datatype 'v jsval = Str string | ServerTimestamp | Other 'v

type_synonym 'v fields = "string \<rightharpoonup> 'v jsval"

text \<open>One element of \<^verbatim>\<open>snapshot.docs\<close>: \<^verbatim>\<open>doc.id\<close> and \<^verbatim>\<open>doc.data()\<close>.\<close>

record 'v doc =
  doc_id :: string
  doc_data :: "'v fields"

text \<open>
  \<^verbatim>\<open>doc => ({ id: doc.id, ...doc.data() })\<close>: the object literal first sets \<^verbatim>\<open>id\<close>,
  then the spread copies every field of the document over it.
\<close>

definition decode :: "'v doc \<Rightarrow> 'v fields" where
  "decode d = [''id'' \<mapsto> Str (doc_id d)] ++ doc_data d"

text \<open>
  The object held by \<^verbatim>\<open>useState\<close> in \<^verbatim>\<open>useData\<close> (the field \<^verbatim>\<open>notes\<close> is
  written \<open>notes'\<close>, \<open>notes\<close> being a keyword of Isabelle).
\<close>

record 'v state =
  tickets :: "'v fields list"
  requests :: "'v fields list"
  notes' :: "'v fields list"
  projects :: "'v fields list"
  profiles :: "'v fields list"
  quotas :: "'v fields list"
  loading :: bool
  error :: "string option"

definition initial_state :: "'v state" where
  "initial_state =
     \<lparr>tickets = [], requests = [], notes' = [], projects = [], profiles = [], quotas = [],
      loading = True, error = None\<rparr>"

text \<open>Reading and writing the property \<^verbatim>\<open>[colName]\<close> of the state object.\<close>

fun slice :: "coll \<Rightarrow> 'v state \<Rightarrow> 'v fields list" where
  "slice Tickets s = tickets s"
| "slice Requests s = requests s"
| "slice Notes s = notes' s"
| "slice Projects s = projects s"
| "slice Profiles s = profiles s"
| "slice Quotas s = quotas s"

fun set_slice :: "coll \<Rightarrow> 'v fields list \<Rightarrow> 'v state \<Rightarrow> 'v state" where
  "set_slice Tickets d s = s\<lparr>tickets := d\<rparr>"
| "set_slice Requests d s = s\<lparr>requests := d\<rparr>"
| "set_slice Notes d s = s\<lparr>notes' := d\<rparr>"
| "set_slice Projects d s = s\<lparr>projects := d\<rparr>"
| "set_slice Profiles d s = s\<lparr>profiles := d\<rparr>"
| "set_slice Quotas d s = s\<lparr>quotas := d\<rparr>"

section \<open>The effect of \<^verbatim>\<open>useData\<close>\<close>

text \<open>
  The variables of one run of the effect: \<^verbatim>\<open>mounted\<close>, \<^verbatim>\<open>loadedCollections\<close>,
  \<^verbatim>\<open>unsubscribers\<close>, and the value of \<^verbatim>\<open>state.loading\<close> that the callbacks read:
  \<^verbatim>\<open>state\<close> is the constant of the render in which the effect was created, so the
  callbacks see the value it had then, whatever \<^verbatim>\<open>setState\<close> has done since.
\<close>

record effect =
  mounted :: bool
  loadedCollections :: nat
  closure_loading :: bool
  unsubscribers :: "coll list"

text \<open>
  The three functions handed to \<^verbatim>\<open>setState\<close>. The first one reads
  \<^verbatim>\<open>loadedCollections\<close> when it is called, which is when React runs it, not when
  \<^verbatim>\<open>setState\<close> is called.
\<close>

datatype 'v updater = SetSlice coll "'v fields list" | ClearLoading | SetError coll

text \<open>
  Running an updater on \<^verbatim>\<open>prevState\<close>, \<open>n\<close> being the value of
  \<^verbatim>\<open>loadedCollections\<close> at that moment.
\<close>

fun run_updater :: "nat \<Rightarrow> 'v updater \<Rightarrow> 'v state \<Rightarrow> 'v state" where
  "run_updater n (SetSlice c data) prevState =
     (set_slice c data prevState)\<lparr>loading := n < length collections - 1\<rparr>"
| "run_updater n ClearLoading prevState = prevState\<lparr>loading := False\<rparr>"
| "run_updater n (SetError c) prevState =
     prevState\<lparr>error := Some (''Erreur de lecture '' @ colName c)\<rparr>"

text \<open>
  An entry of the hook's update queue. React runs a queued updater at the next render.
  When the queue is empty it may instead run the updater inside \<^verbatim>\<open>setState\<close> and
  keep the state it computed; which of the two happens is decided inside React, so it
  is a parameter (\<open>eager\<close>) of every call.
\<close>

datatype 'v update = Eager "'v state" | Lazy "'v updater"

text \<open>
  The hook: the rendered state, the pending updates, the current run of the effect
  (\<open>None\<close> as long as the effect has returned at \<^verbatim>\<open>if (!userId) return\<close>), and the
  subscriptions that the store holds open for it.
\<close>

record 'v hook =
  state :: "'v state"
  queue :: "'v update list"
  effect :: "effect option"
  listeners :: "coll set"

definition useData_mount :: "'v hook" where
  "useData_mount = \<lparr>state = initial_state, queue = [], effect = None, listeners = {}\<rparr>"

definition counter :: "'v hook \<Rightarrow> nat" where
  "counter h = (case effect h of None \<Rightarrow> 0 | Some e \<Rightarrow> loadedCollections e)"

definition setState :: "bool \<Rightarrow> 'v updater \<Rightarrow> 'v hook \<Rightarrow> 'v hook" where
  "setState eager u h =
     (if eager \<and> queue h = []
      then h\<lparr>queue := [Eager (run_updater (counter h) u (state h))]\<rparr>
      else h\<lparr>queue := queue h @ [Lazy u]\<rparr>)"

fun apply_update :: "nat \<Rightarrow> 'v state \<Rightarrow> 'v update \<Rightarrow> 'v state" where
  "apply_update n s (Eager s') = s'"
| "apply_update n s (Lazy u) = run_updater n u s"

definition render :: "'v hook \<Rightarrow> 'v hook" where
  "render h = h\<lparr>state := foldl (apply_update (counter h)) (state h) (queue h), queue := []\<rparr>"

text \<open>
  \<^verbatim>\<open>loadedCollections++\<close> on a JavaScript number: exact below \<open>2^53\<close>, where adding
  one no longer changes the value.
\<close>

definition js_incr :: "nat \<Rightarrow> nat" where
  "js_incr n = (if n < 2 ^ 53 then n + 1 else n)"

text \<open>
  The snapshot callback of the subscription to collection \<open>c\<close> (lines 79 to 94). As
  long as the effect has not run there is no subscription, so no callback to call: the
  delivery does nothing.
\<close>

definition onSnapshotCb :: "bool \<Rightarrow> coll \<Rightarrow> 'v doc list \<Rightarrow> 'v hook \<Rightarrow> 'v hook" where
  "onSnapshotCb eager c docs h =
     (case effect h of
        None \<Rightarrow> h
      | Some e \<Rightarrow>
          if \<not> mounted e then h
          else
            let data = map decode docs;
                h1 = setState eager (SetSlice c data) h
            in if mounted e \<and> closure_loading e
               then
                 let e' = e\<lparr>loadedCollections := js_incr (loadedCollections e)\<rparr>;
                     h2 = h1\<lparr>effect := Some e'\<rparr>
                 in if loadedCollections e' = length collections
                    then setState eager ClearLoading h2
                    else h2
               else h1)"

text \<open>The error callback of the subscription to collection \<open>c\<close> (lines 95 to 100).\<close>

definition onErrorCb :: "bool \<Rightarrow> coll \<Rightarrow> 'v hook \<Rightarrow> 'v hook" where
  "onErrorCb eager c h =
     (case effect h of
        None \<Rightarrow> h
      | Some e \<Rightarrow> if mounted e then setState eager (SetError c) h else h)"

text \<open>
  The body of the effect (lines 69 to 103) for the identity \<open>userId\<close>, \<open>None\<close> being
  \<^verbatim>\<open>undefined\<close>. One subscription is opened per collection name and its
  \<^verbatim>\<open>unsubscribe\<close> is pushed.
\<close>

definition falsy :: "string option \<Rightarrow> bool" where
  "falsy userId = (case userId of None \<Rightarrow> True | Some u \<Rightarrow> u = [])"

definition subscribe :: "'v hook \<Rightarrow> coll \<Rightarrow> 'v hook" where
  "subscribe h c =
     h\<lparr>effect := map_option (\<lambda>e. e\<lparr>unsubscribers := unsubscribers e @ [c]\<rparr>) (effect h),
       listeners := insert c (listeners h)\<rparr>"

definition effect_run :: "string option \<Rightarrow> 'v hook \<Rightarrow> 'v hook" where
  "effect_run userId h =
     (if falsy userId then h
      else foldl subscribe
             (h\<lparr>effect := Some \<lparr>mounted = True, loadedCollections = 0,
                                 closure_loading = loading (state h), unsubscribers = []\<rparr>\<rparr>)
             collections)"

text \<open>
  The function returned by the effect (lines 105 to 108). Calling an \<^verbatim>\<open>unsubscribe\<close>
  of the store closes its subscription, and does nothing when it is closed already.
\<close>

definition cleanup :: "'v hook \<Rightarrow> 'v hook" where
  "cleanup h =
     (case effect h of
        None \<Rightarrow> h
      | Some e \<Rightarrow>
          h\<lparr>effect := Some (e\<lparr>mounted := False\<rparr>),
            listeners := foldl (\<lambda>ls c. ls - {c}) (listeners h) (unsubscribers e)\<rparr>)"

section \<open>Executions\<close>

text \<open>
  What can happen to a mounted hook: a subscription delivers a snapshot or a failure,
  React renders, the effect is cleaned up, or \<^verbatim>\<open>userId\<close> changes, on which React
  renders, cleans the previous effect up and runs the effect again. The Boolean of a
  step says whether React runs a \<^verbatim>\<open>setState\<close> updater of that step at once.
  The hook keeps the variables of the current run of the effect only: the callbacks of
  an earlier run read their own \<^verbatim>\<open>mounted\<close>, which its cleanup has set to false, and
  return at once.
\<close>

datatype 'v event =
  Snapshot coll "'v doc list"
| Failure coll
| Stop
| Render
| UserChanged "string option"

fun step :: "bool \<times> 'v event \<Rightarrow> 'v hook \<Rightarrow> 'v hook" where
  "step (eager, Snapshot c docs) h = onSnapshotCb eager c docs h"
| "step (eager, Failure c) h = onErrorCb eager c h"
| "step (eager, Stop) h = cleanup h"
| "step (eager, Render) h = render h"
| "step (eager, UserChanged userId) h = effect_run userId (cleanup (render h))"

definition run :: "(bool \<times> 'v event) list \<Rightarrow> 'v hook \<Rightarrow> 'v hook" where
  "run evs h = fold step evs h"

text \<open>Mounting the hook with the identity \<open>userId\<close>: the first run of the effect.\<close>

definition start :: "string option \<Rightarrow> 'v hook" where
  "start userId = effect_run userId useData_mount"

text \<open>A snapshot for \<open>c\<close> followed by the render that React schedules for it.\<close>

definition deliver :: "bool \<Rightarrow> coll \<Rightarrow> 'v doc list \<Rightarrow> (bool \<times> 'v event) list" where
  "deliver eager c docs = [(eager, Snapshot c docs), (eager, Render)]"

definition each :: "bool \<Rightarrow> coll list \<Rightarrow> (bool \<times> 'v event) list" where
  "each eager cs = concat (map (\<lambda>c. deliver eager c []) cs)"

fun is_delivery :: "'v event \<Rightarrow> bool" where
  "is_delivery (Snapshot c docs) = True"
| "is_delivery (Failure c) = True"
| "is_delivery ev = False"

fun is_user_change :: "'v event \<Rightarrow> bool" where
  "is_user_change (UserChanged userId) = True"
| "is_user_change ev = False"

fun ends_effect :: "'v event \<Rightarrow> bool" where
  "ends_effect Stop = True"
| "ends_effect (UserChanged userId) = True"
| "ends_effect ev = False"

subsection \<open>Readiness as the specification words it\<close>

text \<open>
  The specification's readiness: the set of collections that have delivered at least
  one snapshot, and \<^verbatim>\<open>loading\<close> as long as that set is not the six names. These two
  definitions follow the specification, not the source; the source counts deliveries.
\<close>

fun snapshot_of :: "bool \<times> 'v event \<Rightarrow> coll option" where
  "snapshot_of (eager, Snapshot c docs) = Some c"
| "snapshot_of (eager, ev) = None"

definition spec_seen :: "(bool \<times> 'v event) list \<Rightarrow> coll set" where
  "spec_seen evs = set (List.map_filter snapshot_of evs)"

definition spec_loading :: "(bool \<times> 'v event) list \<Rightarrow> bool" where
  "spec_loading evs = (\<not> set collections \<subseteq> spec_seen evs)"

section \<open>The helpers of \<^verbatim>\<open>useActions\<close>\<close>

text \<open>
  The store's client library is not part of the repository: its functions are the
  fields of a parameter. A call either throws (a rejected promise, \<open>Inl\<close>) or returns,
  and may change the store \<open>'s\<close> either way. \<open>docRef\<close> is \<^verbatim>\<open>doc(db, path, id)\<close>.
\<close>

datatype exn = Exn string

record ('s, 'v) firestore =
  addDoc :: "string \<Rightarrow> 'v fields \<Rightarrow> 's \<Rightarrow> (exn + unit) \<times> 's"
  docRef :: "string \<Rightarrow> string \<Rightarrow> exn + string"
  updateDoc :: "string \<Rightarrow> 'v fields \<Rightarrow> 's \<Rightarrow> (exn + unit) \<times> 's"
  deleteDoc :: "string \<Rightarrow> 's \<Rightarrow> (exn + unit) \<times> 's"

definition path :: "string \<Rightarrow> string \<Rightarrow> string" where
  "path appId collectionName = ''artifacts/'' @ appId @ ''/'' @ collectionName"

text \<open>The object literals handed to \<^verbatim>\<open>addDoc\<close> and \<^verbatim>\<open>updateDoc\<close>.\<close>

definition add_payload :: "'v jsval \<Rightarrow> 'v fields \<Rightarrow> 'v fields" where
  "add_payload userId data = data(''createdAt'' \<mapsto> ServerTimestamp, ''createdBy'' \<mapsto> userId)"

definition update_payload :: "'v fields \<Rightarrow> 'v fields" where
  "update_payload data = data(''updatedAt'' \<mapsto> ServerTimestamp)"

text \<open>
  The three asynchronous helpers. The result is what the returned promise settles to:
  \<open>Inr b\<close> when it is fulfilled with \<open>b\<close>, \<open>Inl e\<close> when it is rejected with \<open>e\<close>.
  Everything each helper does is inside its \<^verbatim>\<open>try\<close>, and the \<^verbatim>\<open>catch\<close> returns
  \<^verbatim>\<open>false\<close>.
\<close>

definition add ::
  "('s, 'v) firestore \<Rightarrow> string \<Rightarrow> string \<Rightarrow> 'v jsval \<Rightarrow> 'v fields \<Rightarrow> 's \<Rightarrow> (exn + bool) \<times> 's"
where
  "add fs appId collectionName userId data s =
     (case addDoc fs (path appId collectionName) (add_payload userId data) s of
        (Inr u, s') \<Rightarrow> (Inr True, s')
      | (Inl e, s') \<Rightarrow> (Inr False, s'))"

definition update ::
  "('s, 'v) firestore \<Rightarrow> string \<Rightarrow> string \<Rightarrow> string \<Rightarrow> 'v fields \<Rightarrow> 's \<Rightarrow> (exn + bool) \<times> 's"
where
  "update fs appId collectionName ident data s =
     (case docRef fs (path appId collectionName) ident of
        Inl e \<Rightarrow> (Inr False, s)
      | Inr r \<Rightarrow>
          (case updateDoc fs r (update_payload data) s of
             (Inr u, s') \<Rightarrow> (Inr True, s')
           | (Inl e, s') \<Rightarrow> (Inr False, s')))"

definition remove ::
  "('s, 'v) firestore \<Rightarrow> string \<Rightarrow> string \<Rightarrow> string \<Rightarrow> 's \<Rightarrow> (exn + bool) \<times> 's"
where
  "remove fs appId collectionName ident s =
     (case docRef fs (path appId collectionName) ident of
        Inl e \<Rightarrow> (Inr False, s)
      | Inr r \<Rightarrow>
          (case deleteDoc fs r s of
             (Inr u, s') \<Rightarrow> (Inr True, s')
           | (Inl e, s') \<Rightarrow> (Inr False, s')))"

section \<open>Scenarios\<close>

text \<open>Two documents, and the hooks and the store that the examples below start from.\<close>

definition ticket_a :: "unit doc" where
  "ticket_a = \<lparr>doc_id = ''t1'', doc_data = [''title'' \<mapsto> Str ''a'']\<rparr>"

definition ticket_b :: "unit doc" where
  "ticket_b = \<lparr>doc_id = ''t2'', doc_data = [''title'' \<mapsto> Str ''b'']\<rparr>"

definition scenario_C :: "unit hook" where
  "scenario_C = run (each True [Profiles, Quotas]) (start (Some ''u1''))"

definition scenario_D :: "unit hook" where
  "scenario_D = run (each True [Notes, Quotas, Tickets, Requests, Projects, Profiles]) (start (Some ''u1''))"

definition tickets_loaded :: "unit hook" where
  "tickets_loaded = run (deliver True Tickets [ticket_a, ticket_b]) (start (Some ''u1''))"

text \<open>
  A store that refuses a record without a title, a reference with an empty identifier,
  and an update or a deletion while it is empty; its state is the number of records.
\<close>

definition fs0 :: "(nat, unit) firestore" where
  "fs0 =
     \<lparr>addDoc = (\<lambda>p d s. if d ''title'' = None then (Inl (Exn ''invalid data''), s)
                         else (Inr (), Suc s)),
      docRef = (\<lambda>p i. if i = [] then Inl (Exn ''invalid reference'') else Inr (p @ ''/'' @ i)),
      updateDoc = (\<lambda>r d s. if s = 0 then (Inl (Exn ''not found''), s) else (Inr (), s)),
      deleteDoc = (\<lambda>r s. if s = 0 then (Inl (Exn ''permission denied''), s) else (Inr (), s - 1))\<rparr>"

text \<open>
  A hook whose effect is mounted, was created while \<^verbatim>\<open>state.loading\<close> was true, has
  no pending update and has counted \<open>k\<close> deliveries (exactly, as long as \<open>k\<close> is
  below six).
\<close>

definition ticking :: "'v hook \<Rightarrow> nat \<Rightarrow> bool" where
  "ticking h k =
     (queue h = [] \<and>
      (case effect h of
         None \<Rightarrow> False
       | Some e \<Rightarrow> mounted e \<and> closure_loading e \<and> min (loadedCollections e) 6 = min k 6))"

section \<open>Properties\<close>

subsection \<open>Slices\<close>

lemma slice_set_slice_same: "slice c (set_slice c d s) = d"
  by (cases c) simp_all

lemma slice_set_slice_other: "c' \<noteq> c \<Longrightarrow> slice c' (set_slice c d s) = slice c' s"
  by (cases c; cases c') simp_all

lemma error_set_slice: "error (set_slice c d s) = error s"
  by (cases c) simp_all

lemma loading_set_slice: "loading (set_slice c d s) = loading s"
  by (cases c) simp_all

lemma slice_loading_update: "slice c (s\<lparr>loading := b\<rparr>) = slice c s"
  by (cases c) simp_all

lemma slice_error_update: "slice c (s\<lparr>error := e\<rparr>) = slice c s"
  by (cases c) simp_all

lemmas slice_simps = slice_set_slice_same slice_set_slice_other error_set_slice
  loading_set_slice slice_loading_update slice_error_update

lemma colName_inject: "colName c' = colName c \<Longrightarrow> c' = c"
  by (cases c; cases c') simp_all

subsection \<open>The update queue\<close>

text \<open>
  Which value of \<^verbatim>\<open>loadedCollections\<close> the queued updaters read changes
  \<^verbatim>\<open>loading\<close> only: the error and the slices that a render computes do not
  depend on it.
\<close>

lemma error_run_updater:
  "error (run_updater n u s) =
     (case u of SetError c \<Rightarrow> Some (''Erreur de lecture '' @ colName c) | _ \<Rightarrow> error s)"
  by (cases u) (simp_all add: slice_simps)

lemma slice_run_updater:
  "slice c (run_updater n u s) =
     (case u of SetSlice c' d \<Rightarrow> if c' = c then d else slice c s | _ \<Rightarrow> slice c s)"
  by (cases u) (auto simp: slice_simps)

lemma error_apply_update_cong:
  "error s = error s' \<Longrightarrow> error (apply_update n s u) = error (apply_update m s' u)"
  by (cases u) (simp_all add: error_run_updater split: updater.split)

lemma slice_apply_update_cong:
  "slice c s = slice c s' \<Longrightarrow> slice c (apply_update n s u) = slice c (apply_update m s' u)"
  by (cases u) (simp_all add: slice_run_updater split: updater.split)

lemma error_foldl_cong:
  "error s = error s' \<Longrightarrow>
   error (foldl (apply_update n) s q) = error (foldl (apply_update m) s' q)"
proof (induction q arbitrary: s s')
  case Nil
  then show ?case by simp
next
  case (Cons u q)
  have "error (apply_update n s u) = error (apply_update m s' u)"
    using Cons.prems by (rule error_apply_update_cong)
  then show ?case using Cons.IH by simp
qed

lemma slice_foldl_cong:
  "slice c s = slice c s' \<Longrightarrow>
   slice c (foldl (apply_update n) s q) = slice c (foldl (apply_update m) s' q)"
proof (induction q arbitrary: s s')
  case Nil
  then show ?case by simp
next
  case (Cons u q)
  have "slice c (apply_update n s u) = slice c (apply_update m s' u)"
    using Cons.prems by (rule slice_apply_update_cong)
  then show ?case using Cons.IH by simp
qed

subsection \<open>The callbacks, seen at the next render\<close>

lemma error_onSnapshotCb:
  "error (state (render (onSnapshotCb eager c docs h))) = error (state (render h))"
  by (auto simp: onSnapshotCb_def render_def setState_def counter_def Let_def slice_simps
           split: option.splits intro: error_foldl_cong)

lemma slice_onSnapshotCb_other:
  "c' \<noteq> c \<Longrightarrow>
   slice c' (state (render (onSnapshotCb eager c docs h))) = slice c' (state (render h))"
  by (auto simp: onSnapshotCb_def render_def setState_def counter_def Let_def slice_simps
           split: option.splits intro: slice_foldl_cong)

lemma slice_onSnapshotCb_same:
  "effect h = Some e \<Longrightarrow> mounted e \<Longrightarrow>
   slice c (state (render (onSnapshotCb eager c docs h))) = map decode docs"
  by (auto simp: onSnapshotCb_def render_def setState_def counter_def Let_def slice_simps
           split: option.splits)

lemma error_onErrorCb:
  "effect h = Some e \<Longrightarrow> mounted e \<Longrightarrow>
   error (state (render (onErrorCb eager c h))) = Some (''Erreur de lecture '' @ colName c)"
  by (auto simp: onErrorCb_def render_def setState_def counter_def)

lemma error_onErrorCb_sticky:
  "error (state (render h)) \<noteq> None \<Longrightarrow> error (state (render (onErrorCb eager c h))) \<noteq> None"
  by (auto simp: onErrorCb_def render_def setState_def counter_def split: option.splits)

lemma loading_onErrorCb:
  "loading (state (render (onErrorCb eager c h))) = loading (state (render h))"
  by (auto simp: onErrorCb_def render_def setState_def counter_def split: option.splits)

lemma frame_onErrorCb:
  "effect (onErrorCb eager c h) = effect h \<and> listeners (onErrorCb eager c h) = listeners h"
  by (auto simp: onErrorCb_def setState_def split: option.splits)

lemma effect_onSnapshotCb:
  "effect h = Some e \<Longrightarrow> mounted e \<Longrightarrow>
   \<exists>e'. effect (onSnapshotCb eager c docs h) = Some e' \<and> mounted e'"
  by (auto simp: onSnapshotCb_def setState_def Let_def)

lemma state_render_cleanup: "state (render (cleanup h)) = state (render h)"
  by (auto simp: cleanup_def render_def counter_def split: option.splits)

lemma render_render: "render (render h) = render h"
  by (simp add: render_def counter_def)

lemma queue_render: "queue (render h) = []"
  by (simp add: render_def)

lemma effect_render: "effect (render h) = effect h"
  by (simp add: render_def)

lemma queue_cleanup: "queue (cleanup h) = queue h"
  by (simp add: cleanup_def split: option.splits)

lemma state_cleanup: "state (cleanup h) = state h"
  by (simp add: cleanup_def split: option.splits)

lemma state_foldl_subscribe: "state (foldl subscribe h cs) = state h"
  by (induction cs arbitrary: h) (simp_all add: subscribe_def)

lemma queue_foldl_subscribe: "queue (foldl subscribe h cs) = queue h"
  by (induction cs arbitrary: h) (simp_all add: subscribe_def)

lemma state_effect_run: "state (effect_run userId h) = state h"
  by (simp add: effect_run_def state_foldl_subscribe)

lemma queue_effect_run: "queue (effect_run userId h) = queue h"
  by (simp add: effect_run_def queue_foldl_subscribe)

lemma state_render_idle: "queue h = [] \<Longrightarrow> state (render h) = state h"
  by (simp add: render_def)

lemma error_user_changed:
  "error (state (render (effect_run userId (cleanup (render h))))) = error (state (render h))"
  by (simp add: state_render_idle queue_effect_run queue_cleanup queue_render
                state_effect_run state_cleanup)

lemma error_step_sticky:
  "error (state (render h)) \<noteq> None \<Longrightarrow> error (state (render (step ev h))) \<noteq> None"
proof (cases ev)
  case (Pair eager x)
  assume set: "error (state (render h)) \<noteq> None"
  show ?thesis
  proof (cases x)
    case (Snapshot c docs)
    with Pair set show ?thesis by (simp add: error_onSnapshotCb)
  next
    case (Failure c)
    with Pair set show ?thesis by (simp add: error_onErrorCb_sticky)
  next
    case Stop
    with Pair set show ?thesis by (simp add: state_render_cleanup)
  next
    case Render
    with Pair set show ?thesis by (simp add: render_render)
  next
    case (UserChanged userId)
    with Pair set show ?thesis by (simp add: error_user_changed)
  qed
qed

lemma error_run_sticky:
  "error (state (render h)) \<noteq> None \<Longrightarrow> error (state (render (run evs h))) \<noteq> None"
proof (induction evs arbitrary: h)
  case Nil
  then show ?case by (simp add: run_def)
next
  case (Cons ev evs)
  have "error (state (render (step ev h))) \<noteq> None"
    using Cons.prems by (rule error_step_sticky)
  then have "error (state (render (run evs (step ev h)))) \<noteq> None"
    by (rule Cons.IH)
  then show ?case by (simp add: run_def)
qed

text \<open>A run of the effect stays mounted until it is cleaned up.\<close>

lemma mounted_step:
  "\<not> ends_effect (snd ev) \<Longrightarrow> effect h = Some e \<Longrightarrow> mounted e \<Longrightarrow>
   \<exists>e'. effect (step ev h) = Some e' \<and> mounted e'"
proof (cases ev)
  case (Pair eager x)
  assume "\<not> ends_effect (snd ev)" and "effect h = Some e" and "mounted e"
  with Pair show ?thesis
    by (cases x) (simp_all add: effect_onSnapshotCb frame_onErrorCb effect_render)
qed

lemma mounted_run:
  "\<forall>ev \<in> set evs. \<not> ends_effect (snd ev) \<Longrightarrow> effect h = Some e \<Longrightarrow> mounted e \<Longrightarrow>
   \<exists>e'. effect (run evs h) = Some e' \<and> mounted e'"
proof (induction evs arbitrary: h e)
  case Nil
  then show ?case by (simp add: run_def)
next
  case (Cons ev evs)
  from Cons.prems obtain e1 where e1: "effect (step ev h) = Some e1" "mounted e1"
    using mounted_step [of ev h e] by auto
  have "\<exists>e'. effect (run evs (step ev h)) = Some e' \<and> mounted e'"
    using Cons.prems(1) e1 by (intro Cons.IH [of "step ev h" e1]) simp_all
  then show ?case by (simp add: run_def)
qed

subsection \<open>After the cleanup\<close>

lemma delivery_unmounted:
  "is_delivery (snd ev) \<Longrightarrow> \<forall>e. effect h = Some e \<longrightarrow> \<not> mounted e \<Longrightarrow> step ev h = h"
proof (cases ev)
  case (Pair eager x)
  assume "is_delivery (snd ev)" and "\<forall>e. effect h = Some e \<longrightarrow> \<not> mounted e"
  with Pair show ?thesis
    by (cases x) (auto simp: onSnapshotCb_def onErrorCb_def split: option.splits)
qed

lemma deliveries_unmounted:
  "\<forall>ev \<in> set evs. is_delivery (snd ev) \<Longrightarrow> \<forall>e. effect h = Some e \<longrightarrow> \<not> mounted e \<Longrightarrow>
   run evs h = h"
proof (induction evs)
  case Nil
  then show ?case by (simp add: run_def)
next
  case (Cons ev evs)
  have "step ev h = h"
    using Cons.prems by (intro delivery_unmounted) simp_all
  moreover have "run evs h = h"
    using Cons.prems by (intro Cons.IH) simp_all
  ultimately show ?case by (simp add: run_def)
qed

lemma unmounted_cleanup: "\<forall>e. effect (cleanup h) = Some e \<longrightarrow> \<not> mounted e"
  by (auto simp: cleanup_def split: option.splits)

subsection \<open>Without an identity\<close>

lemma step_unstarted:
  "\<not> is_user_change (snd ev) \<Longrightarrow> step ev useData_mount = useData_mount"
proof (cases ev)
  case (Pair eager x)
  assume "\<not> is_user_change (snd ev)"
  with Pair show ?thesis
    by (cases x)
       (simp_all add: useData_mount_def onSnapshotCb_def onErrorCb_def cleanup_def render_def)
qed

lemma run_unstarted:
  "\<forall>ev \<in> set evs. \<not> is_user_change (snd ev) \<Longrightarrow> run evs useData_mount = useData_mount"
proof (induction evs)
  case Nil
  then show ?case by (simp add: run_def)
next
  case (Cons ev evs)
  have "step ev useData_mount = useData_mount"
    using Cons.prems by (intro step_unstarted) simp
  moreover have "run evs useData_mount = useData_mount"
    using Cons.prems by (intro Cons.IH) simp
  ultimately show ?case by (simp add: run_def)
qed

lemma foldl_unsubscribe: "foldl (\<lambda>ls c. ls - {c}) L us = L - set us"
  by (induction us arbitrary: L) auto

lemma cleanup_cleanup: "cleanup (cleanup h) = cleanup h"
  by (cases "effect h") (simp_all add: cleanup_def foldl_unsubscribe)

lemma unmounted_step:
  "\<not> is_user_change (snd ev) \<Longrightarrow> \<forall>e. effect h = Some e \<longrightarrow> \<not> mounted e \<Longrightarrow>
   \<forall>e. effect (step ev h) = Some e \<longrightarrow> \<not> mounted e"
proof (cases ev)
  case (Pair eager x)
  assume "\<not> is_user_change (snd ev)" and "\<forall>e. effect h = Some e \<longrightarrow> \<not> mounted e"
  with Pair show ?thesis
    by (cases x)
       (auto simp: onSnapshotCb_def onErrorCb_def cleanup_def render_def split: option.splits)
qed

lemma deliveries_erased:
  "\<forall>ev \<in> set evs. \<not> is_user_change (snd ev) \<Longrightarrow> \<forall>e. effect h = Some e \<longrightarrow> \<not> mounted e \<Longrightarrow>
   run evs h = run (filter (\<lambda>ev. \<not> is_delivery (snd ev)) evs) h"
proof (induction evs arbitrary: h)
  case Nil
  then show ?case by simp
next
  case (Cons ev evs)
  show ?case
  proof (cases "is_delivery (snd ev)")
    case True
    then have "step ev h = h"
      using Cons.prems(2) by (rule delivery_unmounted)
    moreover have "run evs h = run (filter (\<lambda>ev. \<not> is_delivery (snd ev)) evs) h"
      using Cons.prems by (intro Cons.IH) simp_all
    ultimately show ?thesis using True by (simp add: run_def)
  next
    case False
    have "\<forall>e. effect (step ev h) = Some e \<longrightarrow> \<not> mounted e"
      using Cons.prems by (intro unmounted_step) simp_all
    then have "run evs (step ev h) = run (filter (\<lambda>ev. \<not> is_delivery (snd ev)) evs) (step ev h)"
      using Cons.prems(1) by (intro Cons.IH) simp_all
    then show ?thesis using False by (simp add: run_def)
  qed
qed

subsection \<open>Readiness is a count of deliveries\<close>

lemma length_collections: "length collections = 6" "length collections - 1 = 5"
  by (simp_all add: collections_def)

lemma js_incr_cases: "js_incr n = Suc n \<or> (js_incr n = n \<and> 6 < n)"
  by (simp add: js_incr_def)

lemma ticking_start: "\<not> falsy userId \<Longrightarrow> ticking (start userId) 0"
  by (simp add: ticking_def start_def effect_run_def useData_mount_def initial_state_def
                collections_def subscribe_def)

lemma ticking_deliver:
  assumes "ticking h k"
  shows "ticking (run (deliver eager c docs) h) (Suc k)"
    and "loading (state (run (deliver eager c docs) h)) = ((if eager then k else Suc k) < 5)"
proof -
  from assms obtain e where e: "effect h = Some e" "mounted e" "closure_loading e"
    and k: "min (loadedCollections e) 6 = min k 6" and q: "queue h = []"
    by (auto simp: ticking_def split: option.splits)
  define n where "n = loadedCollections e"
  define n' where "n' = js_incr n"
  have n': "n' = Suc n \<or> (n' = n \<and> 6 < n)"
    unfolding n'_def by (rule js_incr_cases)
  from k have k': "min n 6 = min k 6" by (simp add: n_def)
  have count: "min n' 6 = min (Suc k) 6" "(n' = 6) = (k = 5)" "(n' < 5) = (Suc k < 5)"
    "(n < 5) = (k < 5)"
    using n' k' by (auto simp: min_def split: if_splits)
  have after: "run (deliver eager c docs) h =
      h\<lparr>state := (set_slice c (map decode docs) (state h))
                   \<lparr>loading := (if eager then n else n') < 5 \<and> n' \<noteq> 6\<rparr>,
        queue := [],
        effect := Some (e\<lparr>loadedCollections := n'\<rparr>)\<rparr>"
    using e q
    by (auto simp: run_def deliver_def onSnapshotCb_def setState_def render_def
                   counter_def Let_def length_collections n_def n'_def)
  show "ticking (run (deliver eager c docs) h) (Suc k)"
    using e q count(1) by (simp add: after ticking_def)
  show "loading (state (run (deliver eager c docs) h)) = ((if eager then k else Suc k) < 5)"
    using count by (auto simp: after)
qed

lemma run_append: "run (xs @ ys) h = run ys (run xs h)"
  by (simp add: run_def)

lemma loading_counts_from:
  "ticking h k \<Longrightarrow> ds \<noteq> [] \<Longrightarrow>
   loading (state (run (concat (map (\<lambda>(c, docs). deliver eager c docs) ds)) h))
     = ((if eager then k + length ds - 1 else k + length ds) < 5)"
proof (induction ds arbitrary: h k)
  case Nil
  then show ?case by simp
next
  case (Cons d ds)
  obtain c docs where d: "d = (c, docs)" by (cases d)
  have next_tick: "ticking (run (deliver eager c docs) h) (Suc k)"
    using Cons.prems(1) by (rule ticking_deliver)
  show ?case
  proof (cases "ds = []")
    case True
    then show ?thesis
      using ticking_deliver(2) [OF Cons.prems(1), of eager c docs] d by simp
  next
    case False
    then show ?thesis
      using Cons.IH [OF next_tick False] d by (simp add: run_append)
  qed
qed

lemma loading_counts_deliveries:
  "\<not> falsy userId \<Longrightarrow>
   loading (state (run (concat (map (\<lambda>(c, docs). deliver eager c docs) ds)) (start userId)))
     = (length ds < (if eager then 6 else 5))"
proof (cases "ds = []")
  case True
  assume "\<not> falsy userId"
  then show ?thesis
    using True
    by (simp add: run_def start_def effect_run_def useData_mount_def initial_state_def
                  state_foldl_subscribe)
next
  case False
  assume "\<not> falsy userId"
  then have "ticking (start userId :: 'a hook) 0" by (rule ticking_start)
  from loading_counts_from [OF this False, of eager] False show ?thesis
    by (cases ds) auto
qed

lemmas eval_defs = start_def each_def deliver_def run_def effect_run_def useData_mount_def
  initial_state_def collections_def falsy_def subscribe_def onSnapshotCb_def onErrorCb_def
  setState_def render_def counter_def js_incr_def cleanup_def

text \<open>
  The callbacks read \<^verbatim>\<open>state.loading\<close> of the render that created them. When the
  identity changes after everything was loaded, that value is false: the new callbacks
  never count, and every snapshot sets \<^verbatim>\<open>loading\<close> to \<open>0 < 5\<close>, so that it is
  true again and stays so after all six collections have delivered.
\<close>

lemma loading_stuck_after_identity_change:
  "\<not> loading (state scenario_D)
   \<and> loading (state (run ((True, UserChanged (Some ''u2'')) # each True collections) scenario_D))
   \<and> loading (state (run ((False, UserChanged (Some ''u2'')) # each False collections) scenario_D))"
  by (simp add: scenario_D_def eval_defs)

section \<open>The claims\<close>

subsection \<open>Readiness\<close>

text \<open>
  C1 says that \<^verbatim>\<open>loading\<close> becomes false exactly when the set of collections that
  have delivered a snapshot is the six names, and not before. The source counts
  deliveries instead (see \<open>loading_counts_deliveries\<close>). User \<open>u1\<close>, \<^verbatim>\<open>tickets\<close>
  delivering twice before \<^verbatim>\<open>requests\<close>, \<^verbatim>\<open>notes\<close>, \<^verbatim>\<open>projects\<close> and \<^verbatim>\<open>profiles\<close>
  deliver once, \<^verbatim>\<open>quotas\<close> not having delivered: \<^verbatim>\<open>loading\<close> is false after the
  sixth delivery when React runs each updater at once, and after the fifth already when
  it runs them at the render, while the specification's readiness still says loading.
\<close>

theorem count_reaches_six_before_all_seen:
  "\<not> loading (state (run (each True [Tickets, Tickets, Requests, Notes, Projects, Profiles])
                         (start (Some ''u1'') :: unit hook)))
   \<and> spec_loading (each True [Tickets, Tickets, Requests, Notes, Projects, Profiles]
                      :: (bool \<times> unit event) list)
   \<and> \<not> loading (state (run (each False [Tickets, Tickets, Requests, Notes, Projects])
                           (start (Some ''u1'') :: unit hook)))
   \<and> spec_loading (each False [Tickets, Tickets, Requests, Notes, Projects]
                      :: (bool \<times> unit event) list)"
  by (simp add: eval_defs spec_loading_def spec_seen_def List.map_filter_def)

text \<open>
  C2 says that \<^verbatim>\<open>loading\<close> stays true as long as one collection has not delivered.
  In the source it does not: \<^verbatim>\<open>quotas\<close> never delivers, the five other collections
  deliver once and \<^verbatim>\<open>profiles\<close> once more, and \<^verbatim>\<open>loading\<close> is false (after the five
  first deliveries already when React runs the updaters at the render).
\<close>

theorem loading_cleared_without_quotas:
  "\<not> loading (state (run (each True [Tickets, Requests, Notes, Projects, Profiles, Profiles])
                         (start (Some ''u1'') :: unit hook)))
   \<and> Quotas \<notin> spec_seen (each True [Tickets, Requests, Notes, Projects, Profiles, Profiles]
                            :: (bool \<times> unit event) list)
   \<and> \<not> loading (state (run (each False [Tickets, Requests, Notes, Projects, Profiles])
                           (start (Some ''u1'') :: unit hook)))
   \<and> Quotas \<notin> spec_seen (each False [Tickets, Requests, Notes, Projects, Profiles]
                            :: (bool \<times> unit event) list)"
  by (simp add: eval_defs spec_seen_def List.map_filter_def)

text \<open>
  C3 says that a further snapshot of a collection that has delivered already does not
  change \<^verbatim>\<open>loading\<close>. In the source it can. The updater of line 83 runs at the
  render, after \<^verbatim>\<open>loadedCollections++\<close>: after one snapshot of each of \<^verbatim>\<open>tickets\<close>,
  \<^verbatim>\<open>requests\<close>, \<^verbatim>\<open>notes\<close> and \<^verbatim>\<open>projects\<close>, \<^verbatim>\<open>loading\<close> is true, and a second
  snapshot of \<^verbatim>\<open>tickets\<close>, the fifth delivery, makes it false. This is so when every
  updater runs at the render, and also when React runs the first one at once, the
  queue being empty after the mount, and the others at the render.
\<close>

theorem repeated_snapshot_clears_loading:
  "loading (state (run (each False [Tickets, Requests, Notes, Projects])
                       (start (Some ''u1'') :: unit hook)))
   \<and> \<not> loading (state (run (each False [Tickets, Requests, Notes, Projects, Tickets])
                           (start (Some ''u1'') :: unit hook)))
   \<and> loading (state (run (each True [Tickets] @ each False [Requests, Notes, Projects])
                         (start (Some ''u1'') :: unit hook)))
   \<and> \<not> loading (state (run (each True [Tickets] @ each False [Requests, Notes, Projects, Tickets])
                           (start (Some ''u1'') :: unit hook)))"
  by (simp add: eval_defs)

subsection \<open>Failures\<close>

text \<open>
  C4. While the effect is mounted, a failure of the subscription to \<open>c\<close> sets
  \<^verbatim>\<open>error\<close> to a message that names \<open>c\<close> and no other collection, leaves
  \<^verbatim>\<open>loading\<close> as it was, closes no subscription and leaves the effect as it was; a
  snapshot delivered afterwards, as long as the effect has not been cleaned up, still
  becomes the slice of its collection; and whatever happens afterwards, \<^verbatim>\<open>error\<close> is
  never null again.
\<close>

theorem subscription_failure:
  "effect h = Some e \<Longrightarrow> mounted e \<Longrightarrow>
   (let h' = onErrorCb eager c h in
      error (state (render h')) = Some (''Erreur de lecture '' @ colName c)
      \<and> (\<forall>c'. ''Erreur de lecture '' @ colName c' = ''Erreur de lecture '' @ colName c \<longrightarrow> c' = c)
      \<and> loading (state (render h')) = loading (state (render h))
      \<and> listeners h' = listeners h
      \<and> effect h' = effect h
      \<and> (\<forall>evs eager' c' docs.
            (\<forall>ev \<in> set evs. \<not> ends_effect (snd ev)) \<longrightarrow>
            slice c' (state (render (onSnapshotCb eager' c' docs (run evs h')))) = map decode docs)
      \<and> (\<forall>evs. error (state (render (run evs h'))) \<noteq> None))"
proof -
  assume live: "effect h = Some e" "mounted e"
  define h' where "h' = onErrorCb eager c h"
  have err: "error (state (render h')) = Some (''Erreur de lecture '' @ colName c)"
    unfolding h'_def using live by (rule error_onErrorCb)
  have ident: "\<forall>c'. ''Erreur de lecture '' @ colName c' = ''Erreur de lecture '' @ colName c \<longrightarrow> c' = c"
    by (auto dest: colName_inject)
  have load: "loading (state (render h')) = loading (state (render h))"
    unfolding h'_def by (rule loading_onErrorCb)
  have frame: "listeners h' = listeners h" "effect h' = effect h"
    unfolding h'_def by (simp_all add: frame_onErrorCb)
  have later: "slice c' (state (render (onSnapshotCb eager' c' docs (run evs h')))) = map decode docs"
    if "\<forall>ev \<in> set evs. \<not> ends_effect (snd ev)" for evs eager' c' docs
  proof -
    from that frame(2) live obtain e' where "effect (run evs h') = Some e'" "mounted e'"
      using mounted_run [of evs h' e] by auto
    then show ?thesis by (rule slice_onSnapshotCb_same)
  qed
  have sticky: "error (state (render (run evs h'))) \<noteq> None" for evs
    using err by (intro error_run_sticky) simp
  show ?thesis
    using err ident load frame later sticky unfolding Let_def h'_def [symmetric] by blast
qed

theorem subscription_failure_witness:
  "effect scenario_C
     = Some \<lparr>mounted = True, loadedCollections = 2, closure_loading = True,
             unsubscribers = collections\<rparr>
   \<and> error (state (render (onErrorCb True Tickets scenario_C))) = Some ''Erreur de lecture tickets''
   \<and> loading (state (render (onErrorCb True Tickets scenario_C)))
   \<and> listeners (onErrorCb True Tickets scenario_C) = set collections
   \<and> slice Notes (state (render (onSnapshotCb True Notes [ticket_a]
                                   (run (each True [Projects]) (onErrorCb True Tickets scenario_C)))))
       = [decode ticket_a]
   \<and> error (state (render (run (each True [Notes, Projects, Requests])
                              (onErrorCb True Tickets scenario_C)))) \<noteq> None"
proof -
  have eff: "effect scenario_C
     = Some \<lparr>mounted = True, loadedCollections = 2, closure_loading = True,
             unsubscribers = collections\<rparr>"
    by (simp add: scenario_C_def eval_defs)
  have live: "mounted \<lparr>mounted = True, loadedCollections = 2, closure_loading = True,
                       unsubscribers = collections\<rparr>"
    by simp
  have before: "loading (state (render scenario_C))"
    by (simp add: scenario_C_def eval_defs)
  have subs: "listeners scenario_C = set collections"
    by (auto simp: scenario_C_def eval_defs)
  have harmless: "\<forall>ev \<in> set (each True [Projects] :: (bool \<times> unit event) list). \<not> ends_effect (snd ev)"
    by (simp add: each_def deliver_def)
  note failure = subscription_failure [OF eff live, of True Tickets]
  have msg: "error (state (render (onErrorCb True Tickets scenario_C)))
               = Some ''Erreur de lecture tickets''"
    using failure by (simp add: Let_def)
  have load: "loading (state (render (onErrorCb True Tickets scenario_C)))"
    using failure before by (simp add: Let_def)
  have kept: "listeners (onErrorCb True Tickets scenario_C) = set collections"
    using failure subs by (simp add: Let_def)
  have "\<forall>evs eager' c' docs.
          (\<forall>ev \<in> set evs. \<not> ends_effect (snd ev)) \<longrightarrow>
          slice c' (state (render (onSnapshotCb eager' c' docs
                                     (run evs (onErrorCb True Tickets scenario_C)))))
            = map decode docs"
    using failure unfolding Let_def by blast
  with harmless have later:
    "slice Notes (state (render (onSnapshotCb True Notes [ticket_a]
                                   (run (each True [Projects]) (onErrorCb True Tickets scenario_C)))))
       = map decode [ticket_a]"
    by blast
  have sticky: "error (state (render (run (each True [Notes, Projects, Requests])
                                        (onErrorCb True Tickets scenario_C)))) \<noteq> None"
    using failure unfolding Let_def by blast
  show ?thesis
    using eff msg load kept later sticky by simp
qed

subsection \<open>Teardown\<close>

text \<open>
  C5. After the cleanup of the effect, snapshots and failures change nothing: a
  sequence of deliveries leaves the hook, its rendered state and its pending updates as
  they were at the cleanup, and in any sequence of events without a change of identity
  the deliveries can be left out.
\<close>

theorem deliveries_after_stop:
  "((\<forall>ev \<in> set evs. is_delivery (snd ev)) \<longrightarrow>
      run evs (cleanup h) = cleanup h
      \<and> state (run evs (cleanup h)) = state h
      \<and> queue (run evs (cleanup h)) = queue h)
   \<and> ((\<forall>ev \<in> set evs. \<not> is_user_change (snd ev)) \<longrightarrow>
      run evs (cleanup h) = run (filter (\<lambda>ev. \<not> is_delivery (snd ev)) evs) (cleanup h))"
proof (intro conjI impI)
  assume "\<forall>ev \<in> set evs. is_delivery (snd ev)"
  then have same: "run evs (cleanup h) = cleanup h"
    using unmounted_cleanup [of h] by (rule deliveries_unmounted)
  then show "run evs (cleanup h) = cleanup h" .
  from same show "state (run evs (cleanup h)) = state h"
    by (simp add: state_cleanup)
  from same show "queue (run evs (cleanup h)) = queue h"
    by (simp add: queue_cleanup)
next
  assume "\<forall>ev \<in> set evs. \<not> is_user_change (snd ev)"
  then show "run evs (cleanup h) = run (filter (\<lambda>ev. \<not> is_delivery (snd ev)) evs) (cleanup h)"
    using unmounted_cleanup [of h] by (rule deliveries_erased)
qed

theorem deliveries_after_stop_witness:
  "is_delivery (Snapshot Requests [ticket_a])
   \<and> is_delivery (Failure Notes :: unit event)
   \<and> run [(True, Snapshot Requests [ticket_a]), (False, Failure Notes)] (cleanup scenario_D)
       = cleanup scenario_D
   \<and> slice Requests (state (run [(True, Snapshot Requests [ticket_a]), (False, Failure Notes)]
                                 (cleanup scenario_D))) = []
   \<and> error (state (run [(True, Snapshot Requests [ticket_a]), (False, Failure Notes)]
                        (cleanup scenario_D))) = None
   \<and> \<not> is_user_change (Render :: unit event)
   \<and> run [(True, Snapshot Requests [ticket_a]), (True, Render)] (cleanup scenario_D)
       = run [(True, Render)] (cleanup scenario_D)"
proof -
  have at_stop: "slice Requests (state scenario_D) = []" "error (state scenario_D) = None"
    by (simp_all add: scenario_D_def eval_defs)
  show ?thesis
    using deliveries_after_stop
            [of "[(True, Snapshot Requests [ticket_a]), (False, Failure Notes)]" scenario_D]
          deliveries_after_stop
            [of "[(True, Snapshot Requests [ticket_a]), (True, Render)]" scenario_D]
          at_stop
    by (simp add: state_cleanup)
qed

subsection \<open>No identity\<close>

text \<open>
  C6. With an empty or absent \<^verbatim>\<open>userId\<close> the effect does nothing: the hook is as it was
  mounted, and whatever is delivered, rendered or cleaned up afterwards, the state is the
  initial one (six empty slices, \<^verbatim>\<open>loading\<close> true, \<^verbatim>\<open>error\<close> null), no update is
  pending, no effect is mounted and no subscription is open.
\<close>

theorem start_without_identity:
  "falsy userId \<Longrightarrow> \<forall>ev \<in> set evs. \<not> is_user_change (snd ev) \<Longrightarrow>
   start userId = (useData_mount :: 'v hook)
   \<and> state (run evs (start userId :: 'v hook)) = initial_state
   \<and> queue (run evs (start userId :: 'v hook)) = []
   \<and> effect (run evs (start userId :: 'v hook)) = None
   \<and> listeners (run evs (start userId :: 'v hook)) = {}"
proof -
  assume none: "falsy userId" and evs: "\<forall>ev \<in> set evs. \<not> is_user_change (snd ev)"
  have noop: "start userId = (useData_mount :: 'v hook)"
    using none by (simp add: start_def effect_run_def)
  have "run evs (useData_mount :: 'v hook) = useData_mount"
    using evs by (rule run_unstarted)
  with noop have "run evs (start userId :: 'v hook) = useData_mount"
    by simp
  with noop show ?thesis
    by (simp add: useData_mount_def)
qed

theorem start_without_identity_witness:
  "falsy (Some []) \<and> falsy None
   \<and> state (run [(True, Snapshot Tickets [ticket_a]), (True, Render), (False, Failure Notes),
                  (False, Render), (True, Stop)] (start (Some []))) = initial_state
   \<and> listeners (run [(True, Snapshot Tickets [ticket_a]), (True, Render)] (start None :: unit hook))
       = {}"
proof -
  have none: "falsy (Some [])" "falsy None"
    by (simp_all add: falsy_def)
  have evs:
    "\<forall>ev \<in> set [(True, Snapshot Tickets [ticket_a]), (True, Render), (False, Failure Notes),
                      (False, Render), (True, Stop)]. \<not> is_user_change (snd ev)"
    "\<forall>ev \<in> set [(True, Snapshot Tickets [ticket_a]), (True, Render)].
       \<not> is_user_change (snd ev)"
    by simp_all
  show ?thesis
    using start_without_identity [OF none(1) evs(1)] start_without_identity [OF none(2) evs(2)]
          none
    by blast
qed

subsection \<open>Frame of a snapshot\<close>

text \<open>
  C7. A snapshot for \<open>c\<close> leaves the slice of every other collection and
  \<^verbatim>\<open>error\<close> as they were: both for the updater handed to \<^verbatim>\<open>setState\<close> and for what
  the next render shows, in every hook.
\<close>

theorem snapshot_frame:
  "c' \<noteq> c \<Longrightarrow>
   slice c' (run_updater n (SetSlice c d) s) = slice c' s
   \<and> error (run_updater n (SetSlice c d) s) = error s
   \<and> slice c' (state (render (onSnapshotCb eager c docs h))) = slice c' (state (render h))
   \<and> error (state (render (onSnapshotCb eager c docs h))) = error (state (render h))"
  by (simp add: slice_simps slice_onSnapshotCb_other error_onSnapshotCb)

theorem snapshot_frame_witness:
  "Tickets \<noteq> Notes
   \<and> slice Tickets (state (render (onSnapshotCb False Notes [ticket_b] tickets_loaded)))
       = [decode ticket_a, decode ticket_b]
   \<and> error (state (render (onSnapshotCb False Notes [ticket_b] (onErrorCb True Quotas tickets_loaded))))
       = Some ''Erreur de lecture quotas''"
proof -
  have before: "slice Tickets (state (render tickets_loaded)) = [decode ticket_a, decode ticket_b]"
    "error (state (render (onErrorCb True Quotas tickets_loaded))) = Some ''Erreur de lecture quotas''"
    by (simp_all add: tickets_loaded_def eval_defs)
  show ?thesis
    using snapshot_frame [of Tickets Notes _ _ _ False "[ticket_b]" tickets_loaded]
          snapshot_frame [of Tickets Notes _ _ _ False "[ticket_b]" "onErrorCb True Quotas tickets_loaded"]
          before
    by simp
qed

subsection \<open>Stopping twice\<close>

text \<open>
  C8. Running the cleanup a second time changes nothing, and the cleanup never touches
  the state or the pending updates.
\<close>

theorem stop_idempotent:
  "cleanup (cleanup h) = cleanup h
   \<and> run [(eager, Stop), (eager', Stop)] h = run [(eager, Stop)] h
   \<and> state (cleanup h) = state h
   \<and> queue (cleanup h) = queue h"
  by (simp add: cleanup_cleanup run_def state_cleanup queue_cleanup)

theorem stop_idempotent_witness:
  "cleanup (cleanup scenario_D) = cleanup scenario_D
   \<and> listeners (cleanup (cleanup scenario_D)) = {}
   \<and> \<not> loading (state (cleanup (cleanup scenario_D)))"
proof -
  have once: "listeners (cleanup scenario_D) = {}" "\<not> loading (state scenario_D)"
    by (auto simp: scenario_D_def eval_defs)
  show ?thesis
    using stop_idempotent [of scenario_D] once by simp
qed

subsection \<open>Snapshot decoding\<close>

text \<open>
  C9. A decoded record is the document identifier under \<^verbatim>\<open>id\<close> overwritten by the
  document's own fields: its \<^verbatim>\<open>id\<close> is the stored field when the document has one
  and the document identifier otherwise, and every other field is the document's.
\<close>

theorem decode_id_precedence:
  "decode d ''id'' = (case doc_data d ''id'' of None \<Rightarrow> Some (Str (doc_id d)) | Some v \<Rightarrow> Some v)
   \<and> (\<forall>k. k \<noteq> ''id'' \<longrightarrow> decode d k = doc_data d k)"
  by (simp add: decode_def map_add_def split: option.split)

theorem decode_id_precedence_witness:
  "decode \<lparr>doc_id = ''d1'', doc_data = [''id'' \<mapsto> Str ''x'', ''title'' \<mapsto> Other (1::nat)]\<rparr> ''id''
     = Some (Str ''x'')
   \<and> decode \<lparr>doc_id = ''d1'', doc_data = [''title'' \<mapsto> Other (1::nat)]\<rparr> ''id''
     = Some (Str ''d1'')
   \<and> (''title'' \<noteq> ''id''
      \<and> decode \<lparr>doc_id = ''d1'', doc_data = [''id'' \<mapsto> Str ''x'', ''title'' \<mapsto> Other (1::nat)]\<rparr> ''title''
        = Some (Other 1))"
  using decode_id_precedence
          [of "\<lparr>doc_id = ''d1'', doc_data = [''id'' \<mapsto> Str ''x'', ''title'' \<mapsto> Other (1::nat)]\<rparr>"]
        decode_id_precedence
          [of "\<lparr>doc_id = ''d1'', doc_data = [''title'' \<mapsto> Other (1::nat)]\<rparr>"]
  by simp

subsection \<open>The helpers\<close>

text \<open>
  C10. Whatever the store's functions do, the promise of \<^verbatim>\<open>add\<close>, \<^verbatim>\<open>update\<close> and
  \<^verbatim>\<open>remove\<close> is fulfilled, with \<^verbatim>\<open>true\<close> when the calls to the store returned and
  with \<^verbatim>\<open>false\<close> when one of them threw, and the record that \<^verbatim>\<open>add\<close> hands to
  the store has the caller's \<^verbatim>\<open>userId\<close> as \<^verbatim>\<open>createdBy\<close>, whatever \<^verbatim>\<open>data\<close> held.
\<close>

theorem helpers_catch_every_failure:
  "fst (add fs appId c userId data s)
     = Inr (\<not> isl (fst (addDoc fs (path appId c) (add_payload userId data) s)))
   \<and> add_payload userId data ''createdBy'' = Some userId
   \<and> fst (update fs appId c ident data s)
       = Inr (case docRef fs (path appId c) ident of
                Inl e \<Rightarrow> False
              | Inr r \<Rightarrow> \<not> isl (fst (updateDoc fs r (update_payload data) s)))
   \<and> fst (remove fs appId c ident s)
       = Inr (case docRef fs (path appId c) ident of
                Inl e \<Rightarrow> False
              | Inr r \<Rightarrow> \<not> isl (fst (deleteDoc fs r s)))"
  by (simp add: add_def update_def remove_def add_payload_def split: prod.splits sum.splits)

theorem helpers_catch_every_failure_witness:
  "fst (add fs0 ''app'' ''tickets'' (Str ''u1'') [''title'' \<mapsto> Str ''a'', ''createdBy'' \<mapsto> Str ''u0''] 0)
     = Inr True
   \<and> add_payload (Str ''u1'') [''title'' \<mapsto> Str ''a'', ''createdBy'' \<mapsto> Str ''u0''] ''createdBy''
       = Some (Str ''u1'' :: unit jsval)
   \<and> fst (add fs0 ''app'' ''tickets'' (Str ''u1'') Map.empty 0) = Inr False
   \<and> fst (update fs0 ''app'' ''tickets'' ''t1'' [''title'' \<mapsto> Str ''b''] 1) = Inr True
   \<and> fst (update fs0 ''app'' ''tickets'' [] [''title'' \<mapsto> Str ''b''] 1) = Inr False
   \<and> fst (update fs0 ''app'' ''tickets'' ''t1'' [''title'' \<mapsto> Str ''b''] 0) = Inr False
   \<and> fst (remove fs0 ''app'' ''tickets'' ''t1'' 1) = Inr True
   \<and> fst (remove fs0 ''app'' ''tickets'' ''t1'' 0) = Inr False"
  using helpers_catch_every_failure
          [where fs = fs0 and appId = "''app''" and c = "''tickets''" and userId = "Str ''u1''"
             and data = "[''title'' \<mapsto> Str ''a'', ''createdBy'' \<mapsto> Str ''u0'']"
             and s = 0 and ident = "''t1''"]
        helpers_catch_every_failure
          [where fs = fs0 and appId = "''app''" and c = "''tickets''" and userId = "Str ''u1''"
             and data = Map.empty and s = 0 and ident = "''t1''"]
        helpers_catch_every_failure
          [where fs = fs0 and appId = "''app''" and c = "''tickets''" and userId = "Str ''u1''"
             and data = "[''title'' \<mapsto> Str ''b'']" and s = 1 and ident = "''t1''"]
        helpers_catch_every_failure
          [where fs = fs0 and appId = "''app''" and c = "''tickets''" and userId = "Str ''u1''"
             and data = "[''title'' \<mapsto> Str ''b'']" and s = 1 and ident = "[]"]
        helpers_catch_every_failure
          [where fs = fs0 and appId = "''app''" and c = "''tickets''" and userId = "Str ''u1''"
             and data = "[''title'' \<mapsto> Str ''b'']" and s = 0 and ident = "''t1''"]
  by (simp add: fs0_def add_payload_def path_def)

end
